theory Spec2Isabelle
  imports Main "HOL-Library.List_Lexorder" "HOL-Library.Char_ord" "HOL-Library.AList"
begin

section \<open>The log sink of easylog.go\<close>

text \<open>
  The development embeds \<^verbatim>\<open>easylog.go\<close>: the write API, the flush pump
  \<^verbatim>\<open>_serveLog\<close>, the file writer (\<^verbatim>\<open>_tryWrite\<close>, \<^verbatim>\<open>_rename\<close>,
  \<^verbatim>\<open>_mustWrite\<close>, \<^verbatim>\<open>_writeFile\<close>) and the retention sweeper built by
  \<^verbatim>\<open>_initFileRemove\<close>. Go identifiers that start with an underscore lose it.

  Conventions of the model.
  \<^item> A byte slice and a \<^verbatim>\<open>bytes.Buffer\<close> are byte lists; a file name is a string.
  \<^item> Go's \<^verbatim>\<open>int64\<close> and \<^verbatim>\<open>int\<close> (64 bits) are read as \<open>int\<close>. The one sum of
    two sizes, in \<^verbatim>\<open>_tryWrite\<close>, wraps as the machine addition does; the other
    arithmetic (\<^verbatim>\<open>len+1\<close>, \<^verbatim>\<open>len+1-count\<close> with a positive count) stays in range.
  \<^item> The directory \<^verbatim>\<open>SaveDir\<close> holds regular files, an association list from
    their names to their contents, and subdirectories, which only the sweeper's walk
    looks into. \<^verbatim>\<open>FileName\<close> is a plain name, so that
    \<^verbatim>\<open>filepath.Join(SaveDir, name)\<close> is the entry \<open>name\<close> of that directory.
  \<^item> The answers of the operating system that the code branches on (whether
    \<^verbatim>\<open>os.OpenFile\<close> and \<^verbatim>\<open>os.Rename\<close> fail, what \<^verbatim>\<open>time.Now\<close> returns) are
    inputs, collected in the record \<open>env\<close>; an open or a rename of a path that is a
    directory is one the environment refuses. On an opened file, \<^verbatim>\<open>Stat\<close> and
    \<^verbatim>\<open>io.Copy\<close> succeed: the source ignores their errors.
  \<^item> The buffer pool only recycles allocations and is left out; so is the length of the
    flush interval: a tick of the timer is an event.
  \<^item> \<^verbatim>\<open>SetDir\<close> is called before the first write, if at all: the directory and
    the file name do not change during a run.
  \<^item> No modelled call panics, so the \<^verbatim>\<open>recover\<close> of the pump never restarts it.
\<close>

subsection \<open>Data\<close>

type_synonym bytes = string

record EasyLog =
  SaveDir :: string
  FileName :: string
  MaxFileSize :: int
  MaxFileCount :: int
  Pipe :: "bytes list"  \<comment> \<open>the buffers queued in the channel, oldest first\<close>
  Pipe_cap :: nat  \<comment> \<open>the capacity the channel was made with\<close>
  ch :: "int list"  \<comment> \<open>the channel of capacity 1 behind \<^verbatim>\<open>nofityDelFile\<close>\<close>

text \<open>
  A subdirectory holds files and further subdirectories; of a file in it only the name
  matters, since no modelled code opens it.
\<close>

datatype node = File | Dir "(string \<times> node) list"

text \<open>
  The file system: the regular files of \<^verbatim>\<open>SaveDir\<close> with their contents, its
  subdirectories, and the stream of all bytes that \<^verbatim>\<open>io.Copy\<close> has written so far, in
  the order of the writes. No modelled code reads \<open>appended\<close>; it records the effect
  the ordering property is about.
\<close>

record fsys =
  dir :: "(string \<times> bytes) list"
  subdirs :: "(string \<times> (string \<times> node) list) list"
  appended :: bytes

text \<open>What the environment answers during one call of \<^verbatim>\<open>_writeFile\<close>.\<close>

record env =
  open_try :: bool  \<comment> \<open>\<^verbatim>\<open>os.OpenFile\<close> in \<^verbatim>\<open>_tryWrite\<close> succeeds\<close>
  rename_ok :: "nat \<Rightarrow> bool"  \<comment> \<open>\<^verbatim>\<open>os.Rename\<close> is permitted at attempt \<open>i\<close>\<close>
  open_must :: bool  \<comment> \<open>\<^verbatim>\<open>os.OpenFile\<close> in \<^verbatim>\<open>_mustWrite\<close> succeeds\<close>
  now :: string  \<comment> \<open>\<^verbatim>\<open>time.Now().Format("20060102150405")\<close>\<close>

subsection \<open>Operating system calls\<close>

definition read_file :: "string \<Rightarrow> fsys \<Rightarrow> bytes option" where
  "read_file name fs = map_of (dir fs) name"

text \<open>\<^verbatim>\<open>os.OpenFile(path, O_CREATE|O_WRONLY|O_APPEND, ...)\<close>: creates an absent file, empty.\<close>

definition os_OpenFile :: "bool \<Rightarrow> string \<Rightarrow> fsys \<Rightarrow> fsys option" where
  "os_OpenFile ok name fs =
     (if \<not> ok then None
      else case read_file name fs of
             None \<Rightarrow> Some (fs\<lparr>dir := AList.update name [] (dir fs)\<rparr>)
           | Some c \<Rightarrow> Some fs)"

text \<open>\<^verbatim>\<open>f.Stat()\<close> then \<^verbatim>\<open>info.Size()\<close>, on a file that was opened.\<close>

definition Stat_Size :: "string \<Rightarrow> fsys \<Rightarrow> int" where
  "Stat_Size name fs = (case read_file name fs of None \<Rightarrow> 0 | Some c \<Rightarrow> int (length c))"

text \<open>\<^verbatim>\<open>io.Copy(f, data)\<close> on a file opened for appending.\<close>

definition io_Copy :: "string \<Rightarrow> bytes \<Rightarrow> fsys \<Rightarrow> fsys" where
  "io_Copy name data fs =
     fs\<lparr>dir := AList.update name
             ((case read_file name fs of None \<Rightarrow> [] | Some c \<Rightarrow> c) @ data) (dir fs),
        appended := appended fs @ data\<rparr>"

text \<open>
  \<^verbatim>\<open>os.Rename(oldpath, newpath)\<close>: fails when the environment refuses or the old file
  is absent; replaces a file that has the new name.
\<close>

definition os_Rename :: "bool \<Rightarrow> string \<Rightarrow> string \<Rightarrow> fsys \<Rightarrow> fsys option" where
  "os_Rename ok oldname newname fs =
     (if \<not> ok then None
      else case read_file oldname fs of
             None \<Rightarrow> None
           | Some c \<Rightarrow> Some (fs\<lparr>dir := AList.update newname c (AList.delete oldname (dir fs))\<rparr>))"

text \<open>
  \<^verbatim>\<open>os.Remove(path)\<close> removes a file, or a directory that is empty; otherwise it
  fails and the source ignores the error.
\<close>

definition os_Remove :: "string \<Rightarrow> fsys \<Rightarrow> fsys" where
  "os_Remove name fs =
     fs\<lparr>dir := AList.delete name (dir fs),
        subdirs := filter (\<lambda>(n, es). \<not> (n = name \<and> es = [])) (subdirs fs)\<rparr>"

text \<open>The sum of two \<^verbatim>\<open>int64\<close> values, wrapping in two's complement.\<close>

definition int64_add :: "int \<Rightarrow> int \<Rightarrow> int" where
  "int64_add a b = (a + b + 2 ^ 63) mod 2 ^ 64 - 2 ^ 63"

subsection \<open>The rotation trigger\<close>

text \<open>
  \<^verbatim>\<open>if len(ch) == 0 { ch <- 1 }\<close>. Only the pump calls it, so the channel cannot fill
  between the test and the send.
\<close>

definition nofityDelFile :: "int list \<Rightarrow> int list" where
  "nofityDelFile c = (if length c = 0 then c @ [1] else c)"

subsection \<open>The file writer\<close>

definition tryWrite :: "EasyLog \<Rightarrow> env \<Rightarrow> bytes \<Rightarrow> fsys \<Rightarrow> bool \<times> fsys" where
  "tryWrite t e data fs =
     (case os_OpenFile (open_try e) (FileName t) fs of
        None \<Rightarrow> (True, fs)
      | Some fs1 \<Rightarrow>
          (let fsize = Stat_Size (FileName t) fs1 in
           if int64_add fsize (int (length data)) > MaxFileSize t then (False, fs1)
           else (True, io_Copy (FileName t) data fs1)))"

definition mustWrite :: "EasyLog \<Rightarrow> env \<Rightarrow> bytes \<Rightarrow> fsys \<Rightarrow> fsys" where
  "mustWrite t e data fs =
     (case os_OpenFile (open_must e) (FileName t) fs of
        None \<Rightarrow> fs
      | Some fs1 \<Rightarrow> io_Copy (FileName t) data fs1)"

text \<open>
  The loop of \<^verbatim>\<open>_rename\<close> over its attempts; the pause after a failed attempt is
  not modelled.
\<close>

fun rename_loop :: "nat list \<Rightarrow> (nat \<Rightarrow> bool) \<Rightarrow> string \<Rightarrow> string \<Rightarrow> fsys \<Rightarrow> fsys" where
  "rename_loop [] ok oldname newname fs = fs"
| "rename_loop (i # is) ok oldname newname fs =
     (case os_Rename (ok i) oldname newname fs of
        Some fs' \<Rightarrow> fs'
      | None \<Rightarrow> rename_loop is ok oldname newname fs)"

definition newname :: "EasyLog \<Rightarrow> env \<Rightarrow> string" where
  "newname t e = FileName t @ ''.'' @ now e"

definition rename :: "EasyLog \<Rightarrow> env \<Rightarrow> fsys \<Rightarrow> fsys" where
  "rename t e fs = rename_loop [0..<2] (rename_ok e) (FileName t) (newname t e) fs"

definition writeFile :: "EasyLog \<Rightarrow> env \<Rightarrow> bytes \<Rightarrow> fsys \<Rightarrow> EasyLog \<times> fsys" where
  "writeFile t e data fs =
     (case tryWrite t e data fs of
        (True, fs1) \<Rightarrow> (t, fs1)
      | (False, fs1) \<Rightarrow>
          (let fs2 = rename t e fs1;
               fs3 = mustWrite t e data fs2
           in (t\<lparr>ch := nofityDelFile (ch t)\<rparr>, fs3)))"

subsection \<open>The regular-expression library\<close>

text \<open>
  \<^verbatim>\<open>regexp.Compile\<close> belongs to Go's library, not to the program: the sweep takes it
  as a parameter, a function from the expression to the compiled \<^verbatim>\<open>*Regexp\<close>, or to
  \<open>None\<close> when it returns an error and a nil pointer. A compiled expression is
  what its \<^verbatim>\<open>MatchString\<close> answers.
\<close>

type_synonym Regexp = "string \<Rightarrow> bool"

type_synonym Compile = "string \<Rightarrow> Regexp option"

text \<open>
  To run a sweep on concrete names, the following gives what \<^verbatim>\<open>MatchString\<close> answers
  for an expression that is a sequence of ASCII literals, dots and \<^verbatim>\<open>\d\<close>. Go reads
  the subject rune by rune: \<open>rune_width\<close> is the number of bytes of the first rune as
  \<^verbatim>\<open>utf8.DecodeRuneInString\<close> returns it, 1 for a byte that starts no valid encoding.
\<close>

datatype atom = Lit char | AnyChar | Digit

definition cont :: "char \<Rightarrow> bool" where
  "cont b = (CHR 0x80 \<le> b \<and> b \<le> CHR 0xBF)"

fun rune_width :: "string \<Rightarrow> nat" where
  "rune_width [] = 0"
| "rune_width (b0 # r) =
     (if b0 < CHR 0xC2 then 1
      else if b0 \<le> CHR 0xDF then
        (case r of b1 # _ \<Rightarrow> if cont b1 then 2 else 1 | _ \<Rightarrow> 1)
      else if b0 \<le> CHR 0xEF then
        (case r of
           b1 # b2 # _ \<Rightarrow>
             if (if b0 = CHR 0xE0 then CHR 0xA0 \<le> b1 \<and> b1 \<le> CHR 0xBF
                 else if b0 = CHR 0xED then CHR 0x80 \<le> b1 \<and> b1 \<le> CHR 0x9F
                 else cont b1) \<and> cont b2
             then 3 else 1
         | _ \<Rightarrow> 1)
      else if b0 \<le> CHR 0xF4 then
        (case r of
           b1 # b2 # b3 # _ \<Rightarrow>
             if (if b0 = CHR 0xF0 then CHR 0x90 \<le> b1 \<and> b1 \<le> CHR 0xBF
                 else if b0 = CHR 0xF4 then CHR 0x80 \<le> b1 \<and> b1 \<le> CHR 0x8F
                 else cont b1) \<and> cont b2 \<and> cont b3
             then 4 else 1
         | _ \<Rightarrow> 1)
      else 1)"

text \<open>
  The expression matches a prefix of the subject. A literal is an ASCII character and
  matches itself; \<^verbatim>\<open>\d\<close> matches an ASCII digit; the dot matches any rune but a
  newline, a byte that is no valid encoding included.
\<close>

fun match_here :: "atom list \<Rightarrow> string \<Rightarrow> bool" where
  "match_here [] s = True"
| "match_here (a # as) [] = False"
| "match_here (Lit c # as) (x # xs) = (x = c \<and> c < CHR 0x80 \<and> match_here as xs)"
| "match_here (Digit # as) (x # xs) = (CHR ''0'' \<le> x \<and> x \<le> CHR ''9'' \<and> match_here as xs)"
| "match_here (AnyChar # as) (x # xs) =
     (x \<noteq> CHR 0x0A \<and> match_here as (drop (rune_width (x # xs)) (x # xs)))"

text \<open>\<^verbatim>\<open>re.MatchString(s)\<close>: the expression matches at some rune of \<open>s\<close>, or at its end.\<close>

fun MatchString :: "atom list \<Rightarrow> Regexp" where
  "MatchString re [] = match_here re []"
| "MatchString re (x # xs) =
     (match_here re (x # xs) \<or> MatchString re (drop (rune_width (x # xs) - 1) xs))"

text \<open>
  The expression \<^verbatim>\<open>log.txt\.\d{14}\<close>, which the sweeper builds for the file name
  \<^verbatim>\<open>log.txt\<close>: the dot of the name stands for any rune.
\<close>

definition log_txt_expression :: "atom list" where
  "log_txt_expression =
     [Lit (CHR ''l''), Lit (CHR ''o''), Lit (CHR ''g''), AnyChar, Lit (CHR ''t''),
      Lit (CHR ''x''), Lit (CHR ''t''), Lit (CHR ''.'')] @ replicate 14 Digit"

subsection \<open>The retention sweeper\<close>

text \<open>\<^verbatim>\<open>fmt.Sprintf(`%s\.\d{14}`, t.FileName)\<close>; \<open>CHR 0x5C\<close> is the backslash.\<close>

definition expr :: "EasyLog \<Rightarrow> string" where
  "expr t = FileName t @ [CHR 0x5C, CHR ''.'', CHR 0x5C, CHR ''d'', CHR ''{'', CHR ''1'',
                          CHR ''4'', CHR ''}'']"

record FileInfo =
  Name :: string
  IsDir :: bool

text \<open>
  \<^verbatim>\<open>filepath.Walk\<close> visits a file, or a directory and then its entries in lexical
  order, each entry with all that is below it; \<^verbatim>\<open>fi.Name()\<close> is the base name. The
  callback of the sweeper returns nil for a directory, so the walk descends into it.
\<close>

fun walk_node :: "string \<Rightarrow> node \<Rightarrow> FileInfo option list" where
  "walk_node n File = [Some \<lparr>Name = n, IsDir = False\<rparr>]"
| "walk_node n (Dir es) =
     Some \<lparr>Name = n, IsDir = True\<rparr>
     # concat (map (\<lambda>(m, x). walk_node m x) (sort_key fst es))"

text \<open>The entries of \<^verbatim>\<open>SaveDir\<close>: its files and its subdirectories.\<close>

definition entries :: "fsys \<Rightarrow> (string \<times> node) list" where
  "entries fs =
     map (\<lambda>(n, c). (n, File)) (dir fs) @ map (\<lambda>(n, es). (n, Dir es)) (subdirs fs)"

text \<open>
  \<^verbatim>\<open>filepath.Walk(t.SaveDir, fn)\<close>: the arguments \<^verbatim>\<open>fi\<close> of the calls of \<^verbatim>\<open>fn\<close>,
  in order. \<^verbatim>\<open>Lstat\<close> of the empty path fails, and \<^verbatim>\<open>fn\<close> is called once with a
  nil \<^verbatim>\<open>fi\<close>; this is the case after \<^verbatim>\<open>NewLog\<close>, until \<^verbatim>\<open>SetDir\<close> is called. A
  directory that was set exists; the name of the root is not inspected.
\<close>

definition Walk :: "EasyLog \<Rightarrow> fsys \<Rightarrow> FileInfo option list" where
  "Walk t fs = (if SaveDir t = [] then [None] else walk_node (SaveDir t) (Dir (entries fs)))"

text \<open>
  The callback: the list after the call, or \<open>None\<close> when the call panics, which it
  does when it reaches \<^verbatim>\<open>re.MatchString\<close> with a nil \<^verbatim>\<open>re\<close>.
\<close>

fun walkFn :: "Regexp option \<Rightarrow> string list \<Rightarrow> FileInfo option \<Rightarrow> string list option" where
  "walkFn re flist None = Some flist"
| "walkFn re flist (Some fi) =
     (if IsDir fi then Some flist
      else case re of
             None \<Rightarrow> None
           | Some m \<Rightarrow> if m (Name fi) then Some (flist @ [Name fi]) else Some flist)"

text \<open>The calls of the walk, one after the other; a panic ends the walk.\<close>

fun walk_calls :: "Regexp option \<Rightarrow> string list \<Rightarrow> FileInfo option list \<Rightarrow> string list option" where
  "walk_calls re flist [] = Some flist"
| "walk_calls re flist (fi # fis) =
     (case walkFn re flist fi of
        None \<Rightarrow> None
      | Some flist' \<Rightarrow> walk_calls re flist' fis)"

text \<open>
  The loop \<^verbatim>\<open>for i := 0; i < bound; i++ { os.Remove(filepath.Join(t.SaveDir, flist[i])) }\<close>:
  whatever directory a name was collected in, the path removed is directly under
  \<^verbatim>\<open>SaveDir\<close>. An index out of range panics, and the deferred \<^verbatim>\<open>recover\<close> ends the
  sweep there.
\<close>

fun remove_loop :: "nat list \<Rightarrow> string list \<Rightarrow> fsys \<Rightarrow> fsys" where
  "remove_loop [] flist fs = fs"
| "remove_loop (i # is) flist fs =
     (if i < length flist then remove_loop is flist (os_Remove (flist ! i) fs) else fs)"


text \<open>The list \<^verbatim>\<open>flist\<close> when the walk returns, \<open>None\<close> when it panicked.\<close>

definition collected :: "Compile \<Rightarrow> EasyLog \<Rightarrow> fsys \<Rightarrow> string list option" where
  "collected compile t fs = walk_calls (compile (expr t)) [] (Walk t fs)"

text \<open>\<^verbatim>\<open>cleanFile\<close>; a panic of the walk is recovered and ends the sweep.\<close>

definition cleanFile :: "Compile \<Rightarrow> EasyLog \<Rightarrow> fsys \<Rightarrow> fsys" where
  "cleanFile compile t fs =
     (case collected compile t fs of
        None \<Rightarrow> fs
      | Some flist \<Rightarrow>
          if MaxFileCount t \<le> 0 then fs
          else if int (length flist) + 1 \<le> MaxFileCount t then fs
          else remove_loop [0..<nat (int (length flist) + 1 - MaxFileCount t)]
                 (sort flist) fs)"

subsection \<open>Construction, configuration and the write API\<close>

definition NewLog :: "int \<Rightarrow> EasyLog" where
  "NewLog buflen =
     (let buflen = (if buflen < 10 then 10 else buflen)
      in \<lparr>SaveDir = [], FileName = ''log.txt'', MaxFileSize = 1024 * 1024 * 4,
          MaxFileCount = 0, Pipe = [], Pipe_cap = nat buflen, ch = []\<rparr>)"

definition SetMaxFileSize :: "int \<Rightarrow> EasyLog \<Rightarrow> EasyLog" where
  "SetMaxFileSize n t = t\<lparr>MaxFileSize := (if n < 1024 * 1024 then 1024 * 1024 else n)\<rparr>"

definition SetMaxFileCount :: "int \<Rightarrow> EasyLog \<Rightarrow> EasyLog" where
  "SetMaxFileCount n t = t\<lparr>MaxFileCount := (if n < 0 then 0 else n)\<rparr>"

type_synonym error = string

text \<open>\<^verbatim>\<open>bytes.Buffer.Write\<close>: the count, the error (always nil), the buffer after it.\<close>

definition Buffer_Write :: "bytes \<Rightarrow> bytes \<Rightarrow> int \<times> error option \<times> bytes" where
  "Buffer_Write buf p = (int (length p), None, buf @ p)"

text \<open>
  \<^verbatim>\<open>Write\<close> returns \<^verbatim>\<open>(n, err)\<close> once its buffer is in the channel. While the
  channel is full the send blocks: the call has no result, \<open>None\<close>.
\<close>

definition Write :: "bytes \<Rightarrow> EasyLog \<Rightarrow> ((int \<times> error option) \<times> EasyLog) option" where
  "Write p t =
     (case Buffer_Write [] p of
        (n, err, buf) \<Rightarrow>
          if length (Pipe t) < Pipe_cap t then Some ((n, err), t\<lparr>Pipe := Pipe t @ [buf]\<rparr>)
          else None)"

subsection \<open>The flush pump\<close>

text \<open>
  The pump is either at its \<^verbatim>\<open>select\<close>, or blocked in \<^verbatim>\<open><-tm.C\<close> inside the
  size check that follows the \<^verbatim>\<open>select\<close>.
\<close>

datatype pc = AtSelect | AwaitTick

record pump =
  data :: bytes
  maxCacheSize :: int
  pc :: pc

record system =
  sink :: EasyLog
  loop :: pump
  disk :: fsys

definition CalcMaxCacheSize :: "EasyLog \<Rightarrow> int" where
  "CalcMaxCacheSize t =
     (let nMax = MaxFileSize t in if nMax > 1024 * 1024 * 1 then 1024 * 1024 * 1 else nMax)"

text \<open>The test \<^verbatim>\<open>data.Len() > maxCacheSize\<close> that ends the handling of an event.\<close>

definition size_check :: "pump \<Rightarrow> pump" where
  "size_check p =
     (if int (length (data p)) > maxCacheSize p then p\<lparr>pc := AwaitTick\<rparr>
      else p\<lparr>pc := AtSelect\<rparr>)"

text \<open>\<^verbatim>\<open>case v, ok := <-t.Pipe\<close>; the channel is never closed, so \<^verbatim>\<open>ok\<close> holds.\<close>

definition serveLog_recv :: "system \<Rightarrow> system option" where
  "serveLog_recv s =
     (case Pipe (sink s) of
        [] \<Rightarrow> None
      | v # rest \<Rightarrow>
          Some (s\<lparr>sink := (sink s)\<lparr>Pipe := rest\<rparr>,
                  loop := size_check ((loop s)\<lparr>data := data (loop s) @ v\<rparr>)\<rparr>))"

text \<open>\<^verbatim>\<open>case <-tm.C\<close> of the \<^verbatim>\<open>select\<close>.\<close>

definition serveLog_tick :: "env \<Rightarrow> system \<Rightarrow> system" where
  "serveLog_tick e s =
     (if length (data (loop s)) > 0 then
        (case writeFile (sink s) e (data (loop s)) (disk s) of
           (t', fs') \<Rightarrow>
             s\<lparr>sink := t', disk := fs',
               loop := size_check
                 ((loop s)\<lparr>data := [], maxCacheSize := CalcMaxCacheSize t'\<rparr>)\<rparr>)
      else s\<lparr>loop := size_check ((loop s)\<lparr>maxCacheSize := CalcMaxCacheSize (sink s)\<rparr>)\<rparr>)"

text \<open>The body of the size check once \<^verbatim>\<open><-tm.C\<close> has delivered a tick.\<close>

definition serveLog_flush :: "env \<Rightarrow> system \<Rightarrow> system" where
  "serveLog_flush e s =
     (case writeFile (sink s) e (data (loop s)) (disk s) of
        (t', fs') \<Rightarrow>
          s\<lparr>sink := t', disk := fs', loop := (loop s)\<lparr>data := [], pc := AtSelect\<rparr>\<rparr>)"

subsection \<open>The three goroutines, interleaved\<close>

text \<open>
  An event is one step of a goroutine: a producer's \<^verbatim>\<open>Write\<close>, the pump receiving
  a buffer or a tick, the sweeper receiving its signal and sweeping, the host calling
  a setter. A tick comes with the answers of the operating system to the flush it may
  cause, a wake with the regular-expression library the sweep calls. \<open>step\<close> is
  \<open>None\<close> where the goroutine is blocked.
\<close>

datatype event =
    Send bytes
  | Recv
  | Tick env
  | Wake Compile
  | SetSize int
  | SetCount int

fun step :: "event \<Rightarrow> system \<Rightarrow> system option" where
  "step (Send p) s =
     (case Write p (sink s) of None \<Rightarrow> None | Some (r, t') \<Rightarrow> Some (s\<lparr>sink := t'\<rparr>))"
| "step Recv s = (if pc (loop s) = AtSelect then serveLog_recv s else None)"
| "step (Tick e) s =
     Some (case pc (loop s) of
             AtSelect \<Rightarrow> serveLog_tick e s
           | AwaitTick \<Rightarrow> serveLog_flush e s)"
| "step (Wake compile) s =
     (case ch (sink s) of
        [] \<Rightarrow> None
      | x # rest \<Rightarrow>
          Some (s\<lparr>sink := (sink s)\<lparr>ch := rest\<rparr>,
                  disk := cleanFile compile (sink s) (disk s)\<rparr>))"
| "step (SetSize n) s = Some (s\<lparr>sink := SetMaxFileSize n (sink s)\<rparr>)"
| "step (SetCount n) s = Some (s\<lparr>sink := SetMaxFileCount n (sink s)\<rparr>)"

fun run :: "event list \<Rightarrow> system \<Rightarrow> system option" where
  "run [] s = Some s"
| "run (ev # evs) s = (case step ev s of None \<Rightarrow> None | Some s' \<Rightarrow> run evs s')"

text \<open>The payloads of the \<open>Send\<close> events, in the order they entered the channel.\<close>

fun sent :: "event list \<Rightarrow> bytes list" where
  "sent [] = []"
| "sent (Send p # evs) = p # sent evs"
| "sent (ev # evs) = sent evs"

text \<open>No \<^verbatim>\<open>os.OpenFile\<close> fails during the events.\<close>

fun opens_ok :: "event list \<Rightarrow> bool" where
  "opens_ok [] = True"
| "opens_ok (Tick e # evs) = (open_try e \<and> open_must e \<and> opens_ok evs)"
| "opens_ok (ev # evs) = opens_ok evs"

text \<open>The state after \<^verbatim>\<open>NewLog\<close>: empty channels, the pump at its \<^verbatim>\<open>select\<close>.\<close>

definition boot :: "int \<Rightarrow> fsys \<Rightarrow> system" where
  "boot buflen fs =
     \<lparr>sink = NewLog buflen,
      loop = \<lparr>data = [], maxCacheSize = CalcMaxCacheSize (NewLog buflen), pc = AtSelect\<rparr>,
      disk = fs\<rparr>"

section \<open>Properties of the file writer\<close>

lemma int64_add_in_range:
  "- (2 ^ 63) \<le> a + b \<Longrightarrow> a + b < 2 ^ 63 \<Longrightarrow> int64_add a b = a + b"
  by (simp add: int64_add_def)

lemma read_file_update:
  "read_file n (fs\<lparr>dir := AList.update k v (dir fs)\<rparr>) =
     (if n = k then Some v else read_file n fs)"
  by (simp add: read_file_def update_conv')

lemma os_OpenFile_True: "\<exists>fs1. os_OpenFile True name fs = Some fs1"
  by (simp add: os_OpenFile_def split: option.splits)

lemma read_file_open:
  "os_OpenFile True name fs = Some fs1 \<Longrightarrow>
     read_file n fs1 =
       (if n = name then Some (case read_file name fs of None \<Rightarrow> [] | Some c \<Rightarrow> c)
        else read_file n fs)
     \<and> appended fs1 = appended fs"
  by (auto simp: os_OpenFile_def read_file_update split: option.splits)

lemma read_file_Copy:
  "read_file n (io_Copy name d fs) =
     (if n = name then Some ((case read_file name fs of None \<Rightarrow> [] | Some c \<Rightarrow> c) @ d)
      else read_file n fs)"
  by (simp add: io_Copy_def read_file_def update_conv')

lemma appended_Copy: "appended (io_Copy name d fs) = appended fs @ d"
  by (simp add: io_Copy_def)

lemma Stat_Size_open:
  "os_OpenFile True name fs = Some fs1 \<Longrightarrow> Stat_Size name fs1 = Stat_Size name fs"
  by (auto simp: os_OpenFile_def Stat_Size_def read_file_update split: option.splits)

lemma newname_neq: "newname t e \<noteq> FileName t"
  by (simp add: newname_def)

lemma read_file_Rename:
  "os_Rename True old new fs = Some fs1 \<Longrightarrow> old \<noteq> new \<Longrightarrow>
     read_file n fs1 = (if n = new then read_file old fs else if n = old then None else read_file n fs)
     \<and> appended fs1 = appended fs"
  by (auto simp: os_Rename_def read_file_def update_conv' delete_conv' split: option.splits)

lemma os_Rename_False: "os_Rename False old new fs = None"
  by (simp add: os_Rename_def)

lemma os_Rename_exists:
  "read_file old fs = Some c \<Longrightarrow> \<exists>fs1. os_Rename True old new fs = Some fs1"
  by (simp add: os_Rename_def)

lemma rename_unfold:
  "rename t e fs =
     (case os_Rename (rename_ok e 0) (FileName t) (newname t e) fs of
        Some fs' \<Rightarrow> fs'
      | None \<Rightarrow>
          (case os_Rename (rename_ok e 1) (FileName t) (newname t e) fs of
             Some fs' \<Rightarrow> fs'
           | None \<Rightarrow> fs))"
proof -
  have "[0..<2] = [0, Suc 0]" by (simp add: upt_rec)
  then show ?thesis by (simp add: rename_def split: option.splits)
qed

lemma rename_succeeds:
  assumes "rename_ok e 0 \<or> rename_ok e 1" and "read_file (FileName t) fs = Some c"
  shows "read_file n (rename t e fs) =
           (if n = newname t e then Some c else if n = FileName t then None else read_file n fs)
         \<and> appended (rename t e fs) = appended fs"
proof -
  obtain fs1 where r: "os_Rename True (FileName t) (newname t e) fs = Some fs1"
    using os_Rename_exists[OF assms(2)] by blast
  have eq: "rename t e fs = fs1"
    using assms(1) r by (cases "rename_ok e 0"; cases "rename_ok e 1")
      (simp_all add: rename_unfold os_Rename_False)
  show ?thesis
    using read_file_Rename[OF r, of n] newname_neq[of t e] assms(2) by (auto simp: eq)
qed

lemma appended_rename: "appended (rename t e fs) = appended fs"
  by (auto simp: rename_unfold os_Rename_def split: option.splits)

lemma mustWrite_open:
  "open_must e \<Longrightarrow>
     read_file n (mustWrite t e d fs) =
       (if n = FileName t then Some ((case read_file (FileName t) fs of None \<Rightarrow> [] | Some c \<Rightarrow> c) @ d)
        else read_file n fs)
     \<and> appended (mustWrite t e d fs) = appended fs @ d"
proof -
  assume op: "open_must e"
  obtain fs1 where o: "os_OpenFile (open_must e) (FileName t) fs = Some fs1"
    using op os_OpenFile_True by auto
  have r1: "read_file m fs1 = (if m = FileName t then Some (case read_file (FileName t) fs of None \<Rightarrow> [] | Some c \<Rightarrow> c) else read_file m fs)" for m
    using read_file_open[of "FileName t" fs fs1 m] o op by simp
  have a1: "appended fs1 = appended fs"
    using read_file_open[of "FileName t" fs fs1] o op by simp
  show ?thesis
    by (simp add: mustWrite_def o read_file_Copy appended_Copy r1 a1)
qed

lemma tryWrite_refuse_opened:
  assumes "fst (tryWrite t e d fs) = False"
  shows "open_try e \<and> os_OpenFile True (FileName t) fs = Some (snd (tryWrite t e d fs))"
  using assms by (auto simp: tryWrite_def Let_def os_OpenFile_def split: option.splits if_splits)

lemma writeFile_refused:
  "fst (tryWrite t e d fs) = False \<Longrightarrow>
     writeFile t e d fs =
       (t\<lparr>ch := nofityDelFile (ch t)\<rparr>, mustWrite t e d (rename t e (snd (tryWrite t e d fs))))"
  by (cases "tryWrite t e d fs") (simp add: writeFile_def)

lemma writeFile_accepted:
  "fst (tryWrite t e d fs) = True \<Longrightarrow> writeFile t e d fs = (t, snd (tryWrite t e d fs))"
  by (cases "tryWrite t e d fs") (simp add: writeFile_def)

lemma nofityDelFile_nonempty: "nofityDelFile c \<noteq> []"
  by (simp add: nofityDelFile_def)

lemma tryWrite_opened:
  assumes op: "open_try e"
      and c: "c = (case read_file (FileName t) fs of None \<Rightarrow> [] | Some x \<Rightarrow> x)"
      and rng: "int (length c) + int (length d) < 2 ^ 63"
  shows "\<exists>fs1. os_OpenFile True (FileName t) fs = Some fs1 \<and>
           tryWrite t e d fs =
             (if int (length c) + int (length d) > MaxFileSize t then (False, fs1)
              else (True, io_Copy (FileName t) d fs1))"
proof -
  obtain fs1 where o: "os_OpenFile True (FileName t) fs = Some fs1"
    using os_OpenFile_True by blast
  have r1: "read_file (FileName t) fs1 = Some c"
    using read_file_open[OF o, of "FileName t"] c by simp
  have sz: "Stat_Size (FileName t) fs1 = int (length c)"
    by (simp add: Stat_Size_def r1)
  have add: "int64_add (int (length c)) (int (length d)) = int (length c) + int (length d)"
    using rng by (intro int64_add_in_range) simp_all
  have "tryWrite t e d fs =
      (if int (length c) + int (length d) > MaxFileSize t then (False, fs1)
       else (True, io_Copy (FileName t) d fs1))"
    using op by (simp add: tryWrite_def o sz add)
  with o show ?thesis by blast
qed

lemma tryWrite_open_fails: "\<not> open_try e \<Longrightarrow> tryWrite t e d fs = (True, fs)"
  by (simp add: tryWrite_def os_OpenFile_def)

lemma writeFile_open_fails: "\<not> open_try e \<Longrightarrow> writeFile t e d fs = (t, fs)"
  by (simp add: writeFile_def tryWrite_open_fails)

lemma writeFile_sink:
  "fst (writeFile t e d fs) = t \<or> fst (writeFile t e d fs) = t\<lparr>ch := nofityDelFile (ch t)\<rparr>"
  by (cases "tryWrite t e d fs"; cases "fst (tryWrite t e d fs)")
     (simp_all add: writeFile_def Let_def)

lemma MaxFileSize_writeFile: "MaxFileSize (fst (writeFile t e d fs)) = MaxFileSize t"
  using writeFile_sink[of t e d fs] by auto

lemma writeFile_Pipe:
  "Pipe (fst (writeFile t e d fs)) = Pipe t \<and> Pipe_cap (fst (writeFile t e d fs)) = Pipe_cap t"
  using writeFile_sink[of t e d fs] by auto






text \<open>
  C4. When \<open>tryWrite\<close> refuses the payload, \<open>writeFile\<close> is \<open>rename\<close>, then
  \<open>mustWrite\<close> of the whole payload, then \<open>nofityDelFile\<close>, which leaves a signal
  pending. If a rename attempt succeeds and the second open succeeds, the old content
  \<open>c\<close> is under the timestamped name and the active file holds exactly the payload.
  Hence, when both opens succeed, a payload longer than \<open>MaxFileSize\<close> is refused and
  leaves an active file larger than \<open>MaxFileSize\<close>.
\<close>

theorem writeFile_rotation:
  assumes c: "c = (case read_file (FileName t) fs of None \<Rightarrow> [] | Some x \<Rightarrow> x)"
  shows "(fst (tryWrite t e d fs) = False \<longrightarrow>
            writeFile t e d fs =
              (t\<lparr>ch := nofityDelFile (ch t)\<rparr>,
               mustWrite t e d (rename t e (snd (tryWrite t e d fs))))
          \<and> ch (fst (writeFile t e d fs)) \<noteq> []
          \<and> ((rename_ok e 0 \<or> rename_ok e 1) \<and> open_must e \<longrightarrow>
               read_file (newname t e) (snd (writeFile t e d fs)) = Some c
             \<and> read_file (FileName t) (snd (writeFile t e d fs)) = Some d)
          \<and> (open_must e \<longrightarrow> appended (snd (writeFile t e d fs)) = appended fs @ d))
       \<and> (open_try e \<and> open_must e \<and> int (length d) > MaxFileSize t
            \<and> int (length c) + int (length d) < 2 ^ 63 \<longrightarrow>
             fst (tryWrite t e d fs) = False
           \<and> Stat_Size (FileName t) (snd (writeFile t e d fs)) > MaxFileSize t)"
proof -
  let ?fs1 = "snd (tryWrite t e d fs)"
  have part1: "writeFile t e d fs =
              (t\<lparr>ch := nofityDelFile (ch t)\<rparr>, mustWrite t e d (rename t e ?fs1))
          \<and> ch (fst (writeFile t e d fs)) \<noteq> []
          \<and> ((rename_ok e 0 \<or> rename_ok e 1) \<and> open_must e \<longrightarrow>
               read_file (newname t e) (snd (writeFile t e d fs)) = Some c
             \<and> read_file (FileName t) (snd (writeFile t e d fs)) = Some d)
          \<and> (open_must e \<longrightarrow> appended (snd (writeFile t e d fs)) = appended fs @ d)"
    if ref: "fst (tryWrite t e d fs) = False"
  proof -
    have o: "os_OpenFile True (FileName t) fs = Some ?fs1"
      using tryWrite_refuse_opened[OF ref] by simp
    have r1: "read_file (FileName t) ?fs1 = Some c"
      using read_file_open[OF o, of "FileName t"] c by simp
    have a1: "appended ?fs1 = appended fs"
      using read_file_open[OF o] by simp
    have w: "writeFile t e d fs =
        (t\<lparr>ch := nofityDelFile (ch t)\<rparr>, mustWrite t e d (rename t e ?fs1))"
      by (rule writeFile_refused[OF ref])
    have p2: "ch (fst (writeFile t e d fs)) \<noteq> []"
      by (simp add: w nofityDelFile_nonempty)
    have p3: "read_file (newname t e) (snd (writeFile t e d fs)) = Some c
            \<and> read_file (FileName t) (snd (writeFile t e d fs)) = Some d"
      if "rename_ok e 0 \<or> rename_ok e 1" "open_must e"
      using rename_succeeds[OF that(1) r1] mustWrite_open[OF that(2), of _ t d "rename t e ?fs1"]
        newname_neq[of t e]
      by (simp add: w)
    have p4: "appended (snd (writeFile t e d fs)) = appended fs @ d" if "open_must e"
      using mustWrite_open[OF that, of _ t d "rename t e ?fs1"]
      by (simp add: w appended_rename a1)
    show ?thesis using w p2 p3 p4 by blast
  qed
  have part2: "fst (tryWrite t e d fs) = False
           \<and> Stat_Size (FileName t) (snd (writeFile t e d fs)) > MaxFileSize t"
    if op: "open_try e" and om: "open_must e" and big: "int (length d) > MaxFileSize t"
      and rng: "int (length c) + int (length d) < 2 ^ 63"
  proof -
    have ref: "fst (tryWrite t e d fs) = False"
      using tryWrite_opened[OF op c rng] big by auto
    have w: "writeFile t e d fs =
        (t\<lparr>ch := nofityDelFile (ch t)\<rparr>, mustWrite t e d (rename t e ?fs1))"
      by (rule writeFile_refused[OF ref])
    have "Stat_Size (FileName t) (snd (writeFile t e d fs)) > MaxFileSize t"
      using mustWrite_open[OF om, of "FileName t" t d "rename t e ?fs1"] big
      by (simp add: w Stat_Size_def)
    with ref show ?thesis by simp
  qed
  show ?thesis using part1 part2 by blast
qed

theorem writeFile_rotation_witness:
  "fst (tryWrite (NewLog 10)
         \<lparr>open_try = True, rename_ok = (\<lambda>i. True), open_must = True, now = ''20240101120000''\<rparr>
         (replicate 4194305 (CHR ''a'')) \<lparr>dir = [(''log.txt'', ''old'')], subdirs = [], appended = ''old''\<rparr>) = False
   \<and> read_file ''log.txt.20240101120000'' (snd (writeFile (NewLog 10)
         \<lparr>open_try = True, rename_ok = (\<lambda>i. True), open_must = True, now = ''20240101120000''\<rparr>
         (replicate 4194305 (CHR ''a'')) \<lparr>dir = [(''log.txt'', ''old'')], subdirs = [], appended = ''old''\<rparr>)) = Some ''old''
   \<and> read_file ''log.txt'' (snd (writeFile (NewLog 10)
         \<lparr>open_try = True, rename_ok = (\<lambda>i. True), open_must = True, now = ''20240101120000''\<rparr>
         (replicate 4194305 (CHR ''a'')) \<lparr>dir = [(''log.txt'', ''old'')], subdirs = [], appended = ''old''\<rparr>))
       = Some (replicate 4194305 (CHR ''a''))
   \<and> Stat_Size ''log.txt'' (snd (writeFile (NewLog 10)
         \<lparr>open_try = True, rename_ok = (\<lambda>i. True), open_must = True, now = ''20240101120000''\<rparr>
         (replicate 4194305 (CHR ''a'')) \<lparr>dir = [(''log.txt'', ''old'')], subdirs = [], appended = ''old''\<rparr>)) > 4194304"
proof -
  let ?e = "\<lparr>open_try = True, rename_ok = (\<lambda>i. True), open_must = True,
             now = ''20240101120000''\<rparr>"
  let ?fs = "\<lparr>dir = [(''log.txt'', ''old'')], subdirs = [], appended = ''old''\<rparr>"
  let ?d = "replicate 4194305 (CHR ''a'')"
  have h: "''old'' = (case read_file (FileName (NewLog 10)) ?fs of None \<Rightarrow> [] | Some x \<Rightarrow> x)"
    by (simp add: read_file_def NewLog_def)
  have n: "FileName (NewLog 10) = ''log.txt''" "MaxFileSize (NewLog 10) = 4194304"
    by (simp_all add: NewLog_def)
  have nn: "newname (NewLog 10) ?e = ''log.txt.20240101120000''"
    by (simp add: newname_def n)
  note W = writeFile_rotation[OF h, of ?e ?d]
  have big: "open_try ?e \<and> open_must ?e \<and> int (length ?d) > MaxFileSize (NewLog 10)
      \<and> int (length ''old'') + int (length ?d) < 2 ^ 63"
    by (simp add: n)
  from W big have ref: "fst (tryWrite (NewLog 10) ?e ?d ?fs) = False"
    and sz: "Stat_Size (FileName (NewLog 10)) (snd (writeFile (NewLog 10) ?e ?d ?fs))
               > MaxFileSize (NewLog 10)"
    by blast+
  have ok: "(rename_ok ?e 0 \<or> rename_ok ?e 1) \<and> open_must ?e" by simp
  from W ref ok
  have rd: "read_file (newname (NewLog 10) ?e) (snd (writeFile (NewLog 10) ?e ?d ?fs)) = Some ''old''
          \<and> read_file (FileName (NewLog 10)) (snd (writeFile (NewLog 10) ?e ?d ?fs)) = Some ?d"
    by blast
  from ref sz rd show ?thesis
    unfolding n nn by simp
qed

text \<open>
  C10. When the open in \<open>tryWrite\<close> fails, \<open>tryWrite\<close> returns true and leaves the
  file system as it was; \<open>writeFile\<close> then changes neither the file system (no rename,
  no second write) nor the sink (no signal). The pump resets its buffer after the call,
  on a tick at the \<^verbatim>\<open>select\<close> as in the size check, so the payload is gone.
\<close>

theorem open_failure_drops_payload:
  assumes "\<not> open_try e"
  shows "tryWrite t e d fs = (True, fs)
       \<and> writeFile t e d fs = (t, fs)
       \<and> sink (serveLog_tick e s) = sink s \<and> disk (serveLog_tick e s) = disk s
       \<and> data (loop (serveLog_tick e s)) = []
       \<and> sink (serveLog_flush e s) = sink s \<and> disk (serveLog_flush e s) = disk s
       \<and> data (loop (serveLog_flush e s)) = []"
  using assms
  by (simp add: tryWrite_open_fails writeFile_open_fails serveLog_tick_def serveLog_flush_def
      size_check_def)

theorem open_failure_drops_payload_witness:
  "writeFile (NewLog 10)
     \<lparr>open_try = False, rename_ok = (\<lambda>i. True), open_must = True, now = ''20240101120000''\<rparr>
     ''hello'' \<lparr>dir = [], subdirs = [], appended = []\<rparr> = (NewLog 10, \<lparr>dir = [], subdirs = [], appended = []\<rparr>)"
proof -
  let ?e = "\<lparr>open_try = False, rename_ok = (\<lambda>i. True), open_must = True,
             now = ''20240101120000''\<rparr>"
  have h: "\<not> open_try ?e" by simp
  from open_failure_drops_payload[OF h] show ?thesis by blast
qed

section \<open>Properties of the write API, the trigger and the pump\<close>

lemma Write_Some:
  "Write p t = Some (r, t') \<Longrightarrow> r = (int (length p), None) \<and> t' = t\<lparr>Pipe := Pipe t @ [p]\<rparr>"
  by (auto simp: Write_def Buffer_Write_def split: if_splits)

lemma nofityDelFile_le1: "length c \<le> 1 \<Longrightarrow> length (nofityDelFile c) = 1"
  by (cases c) (simp_all add: nofityDelFile_def)

lemma nofityDelFile_pending: "c \<noteq> [] \<Longrightarrow> nofityDelFile c = c"
  by (simp add: nofityDelFile_def)

lemma nofityDelFile_funpow: "c \<noteq> [] \<Longrightarrow> (nofityDelFile ^^ n) c = c"
  by (induction n) (simp_all add: nofityDelFile_pending)

lemma ch_writeFile: "length (ch t) \<le> 1 \<Longrightarrow> length (ch (fst (writeFile t e d fs))) \<le> 1"
  using writeFile_sink[of t e d fs] nofityDelFile_le1[of "ch t"] by auto

lemma step_ch:
  assumes "step ev s = Some s'" and "length (ch (sink s)) \<le> 1"
  shows "length (ch (sink s')) \<le> 1"
proof (cases ev)
  case (Send p)
  then show ?thesis using assms
    by (auto simp: Write_def Buffer_Write_def split: option.splits if_splits)
next
  case Recv
  then show ?thesis using assms
    by (auto simp: serveLog_recv_def split: if_splits list.splits)
next
  case (Tick e)
  have "length (ch (fst (writeFile (sink s) e (data (loop s)) (disk s)))) \<le> 1"
    using ch_writeFile[OF assms(2)] .
  then show ?thesis using assms Tick
    by (cases "writeFile (sink s) e (data (loop s)) (disk s)")
       (auto simp: serveLog_tick_def serveLog_flush_def split: pc.splits if_splits)
next
  case (Wake compile)
  then show ?thesis using assms by (auto split: list.splits)
next
  case (SetSize n)
  then show ?thesis using assms by (auto simp: SetMaxFileSize_def)
next
  case (SetCount n)
  then show ?thesis using assms by (auto simp: SetMaxFileCount_def)
qed

lemma run_ch:
  "run evs s = Some s' \<Longrightarrow> length (ch (sink s)) \<le> 1 \<Longrightarrow> length (ch (sink s')) \<le> 1"
proof (induction evs arbitrary: s)
  case Nil
  then show ?case by simp
next
  case (Cons ev evs)
  then obtain s1 where s1: "step ev s = Some s1" and r: "run evs s1 = Some s'"
    by (auto split: option.splits)
  from step_ch[OF s1 Cons.prems(2)] Cons.IH[OF r] show ?case by simp
qed

lemma step_not_tick_loop:
  assumes "step ev s = Some s'" and "pc (loop s) = AwaitTick" and "\<forall>e. ev \<noteq> Tick e"
  shows "loop s' = loop s"
  using assms
  by (cases ev) (auto simp: Write_def Buffer_Write_def split: option.splits if_splits list.splits)

text \<open>
  C8. \<open>Write\<close> has no result exactly while the channel is full. When it returns, it
  returns the length of the payload and a nil error, and the payload is the last
  buffer of the channel. Its result is the same before and after a \<open>writeFile\<close>,
  whatever the environment answered there, and it is the length and nil after every
  run of events: no failure of an open, a rename or a removal reaches the caller.
\<close>

theorem Write_result:
  "(Write p t = None \<longleftrightarrow> Pipe_cap t \<le> length (Pipe t))
   \<and> (Write p t = Some (r, t') \<longrightarrow> r = (int (length p), None) \<and> Pipe t' = Pipe t @ [p])
   \<and> map_option fst (Write p (fst (writeFile t e d fs))) = map_option fst (Write p t)
   \<and> (run evs s = Some s' \<and> Write p (sink s') = Some (r', t'') \<longrightarrow>
        r' = (int (length p), None))"
proof -
  have a: "Write p t = None \<longleftrightarrow> Pipe_cap t \<le> length (Pipe t)"
    by (auto simp: Write_def Buffer_Write_def)
  have b: "Write p t = Some (r, t') \<longrightarrow> r = (int (length p), None) \<and> Pipe t' = Pipe t @ [p]"
    using Write_Some[of p t r t'] by auto
  have c: "map_option fst (Write p (fst (writeFile t e d fs))) = map_option fst (Write p t)"
    using writeFile_Pipe[of t e d fs] by (simp add: Write_def Buffer_Write_def)
  have d: "run evs s = Some s' \<and> Write p (sink s') = Some (r', t'') \<longrightarrow>
        r' = (int (length p), None)"
    using Write_Some[of p "sink s'" r' t''] by auto
  from a b c d show ?thesis by blast
qed

theorem Write_result_witness:
  "Write ''hello'' (NewLog 10) = Some ((5, None), (NewLog 10)\<lparr>Pipe := [''hello'']\<rparr>)
   \<and> map_option fst (Write ''hello'' (fst (writeFile (NewLog 10)
        \<lparr>open_try = False, rename_ok = (\<lambda>i. False), open_must = False, now = []\<rparr>
        ''lost'' \<lparr>dir = [], subdirs = [], appended = []\<rparr>))) = Some (5, None)
   \<and> map_option fst (Write ''hello'' (sink (the (run [Send ''lost'', Recv,
        Tick \<lparr>open_try = False, rename_ok = (\<lambda>i. False), open_must = False, now = []\<rparr>]
        (boot 10 \<lparr>dir = [], subdirs = [], appended = []\<rparr>))))) = Some (5, None)"
proof -
  let ?e = "\<lparr>open_try = False, rename_ok = (\<lambda>i. False), open_must = False, now = []\<rparr>"
  let ?evs = "[Send ''lost'', Recv, Tick ?e]"
  let ?init = "boot 10 \<lparr>dir = [], subdirs = [], appended = []\<rparr>"
  let ?s = "the (run ?evs ?init)"
  have w: "Write ''hello'' (NewLog 10) = Some ((5, None), (NewLog 10)\<lparr>Pipe := [''hello'']\<rparr>)"
    by (simp add: Write_def Buffer_Write_def NewLog_def)
  from Write_result[of "''hello''" "NewLog 10" "(5, None)" "(NewLog 10)\<lparr>Pipe := [''hello'']\<rparr>"
      ?e "''lost''" "\<lparr>dir = [], subdirs = [], appended = []\<rparr>"] w
  have 1: "map_option fst (Write ''hello'' (fst (writeFile (NewLog 10) ?e ''lost''
        \<lparr>dir = [], subdirs = [], appended = []\<rparr>))) = Some (5, None)"
    by simp
  have r: "run ?evs ?init = Some ?s"
    by (simp add: boot_def NewLog_def CalcMaxCacheSize_def Write_def Buffer_Write_def
        serveLog_recv_def size_check_def serveLog_tick_def writeFile_open_fails)
  have p: "Pipe (sink ?s) = [] \<and> Pipe_cap (sink ?s) = 10"
    by (simp add: boot_def NewLog_def CalcMaxCacheSize_def Write_def Buffer_Write_def
        serveLog_recv_def size_check_def serveLog_tick_def writeFile_open_fails)
  obtain r' t'' where ws: "Write ''hello'' (sink ?s) = Some (r', t'')"
    using p by (cases "Write ''hello'' (sink ?s)") (auto simp: Write_def Buffer_Write_def)
  from Write_result[of "''hello''" "sink ?s" r' t'' ?e "[]" "\<lparr>dir = [], subdirs = [], appended = []\<rparr>"
      ?evs ?init ?s r' t''] r ws
  have "r' = (5, None)" by simp
  with ws have 2: "map_option fst (Write ''hello'' (sink ?s)) = Some (5, None)" by simp
  from w 1 2 show ?thesis by blast
qed

text \<open>
  C7. From a state with at most one signal in \<open>ch\<close>, every run of events leads to a
  state with at most one. A call of \<open>nofityDelFile\<close> on a channel with at most one
  signal leaves exactly one; any number of calls while a signal is pending leave the
  channel as it is. With one signal pending, after \<open>n\<close> more calls the sweeper wakes
  once and is then blocked: one sweep, not \<open>n\<close>.
\<close>

theorem trigger_coalesces:
  "(run evs s = Some s' \<and> length (ch (sink s)) \<le> 1 \<longrightarrow> length (ch (sink s')) \<le> 1)
   \<and> (length c \<le> 1 \<longrightarrow> length (nofityDelFile c) = 1)
   \<and> (c \<noteq> [] \<longrightarrow> (nofityDelFile ^^ n) c = c)
   \<and> (length (ch (sink s)) = 1 \<longrightarrow>
        (\<exists>s1. step (Wake compile) (s\<lparr>sink := (sink s)\<lparr>ch := (nofityDelFile ^^ n) (ch (sink s))\<rparr>\<rparr>) = Some s1
              \<and> ch (sink s1) = [] \<and> step (Wake compile) s1 = None))"
proof -
  have d: "\<exists>s1. step (Wake compile) (s\<lparr>sink := (sink s)\<lparr>ch := (nofityDelFile ^^ n) (ch (sink s))\<rparr>\<rparr>) = Some s1
              \<and> ch (sink s1) = [] \<and> step (Wake compile) s1 = None"
    if one: "length (ch (sink s)) = 1"
  proof -
    from one obtain x where x: "ch (sink s) = [x]"
      by (cases "ch (sink s)") auto
    then have "(nofityDelFile ^^ n) (ch (sink s)) = [x]"
      using nofityDelFile_funpow[of "ch (sink s)" n] by simp
    then show ?thesis by simp
  qed
  show ?thesis
    using run_ch[of evs s s'] nofityDelFile_le1[of c] nofityDelFile_funpow[of c n] d by blast
qed

theorem trigger_coalesces_witness:
  "(nofityDelFile ^^ 3) [1] = [1] \<and> length (nofityDelFile []) = 1
   \<and> length (ch (sink (the (run [Send ''a''] (boot 10 \<lparr>dir = [], subdirs = [], appended = []\<rparr>))))) \<le> 1
   \<and> (\<exists>s1. step (Wake (\<lambda>x. None)) ((boot 10 \<lparr>dir = [], subdirs = [], appended = []\<rparr>)
              \<lparr>sink := (NewLog 10)\<lparr>ch := (nofityDelFile ^^ 3) [1]\<rparr>\<rparr>) = Some s1
            \<and> ch (sink s1) = [] \<and> step (Wake (\<lambda>x. None)) s1 = None)"
proof -
  let ?p = "(boot 10 \<lparr>dir = [], subdirs = [], appended = []\<rparr>)\<lparr>sink := (NewLog 10)\<lparr>ch := [1]\<rparr>\<rparr>"
  have p: "length (ch (sink ?p)) = 1" by simp
  from trigger_coalesces[of "[]" ?p ?p "[]" 3 "\<lambda>x. None"] p
  have 4: "\<exists>s1. step (Wake (\<lambda>x. None)) (?p\<lparr>sink := (sink ?p)\<lparr>ch := (nofityDelFile ^^ 3) (ch (sink ?p))\<rparr>\<rparr>) = Some s1
            \<and> ch (sink s1) = [] \<and> step (Wake (\<lambda>x. None)) s1 = None"
    by blast
  have 4: "\<exists>s1. step (Wake (\<lambda>x. None)) ((boot 10 \<lparr>dir = [], subdirs = [], appended = []\<rparr>)
              \<lparr>sink := (NewLog 10)\<lparr>ch := (nofityDelFile ^^ 3) [1]\<rparr>\<rparr>) = Some s1
            \<and> ch (sink s1) = [] \<and> step (Wake (\<lambda>x. None)) s1 = None"
    using 4 by simp
  let ?s = "boot 10 \<lparr>dir = [], subdirs = [], appended = []\<rparr>"
  have r: "run [Send ''a''] ?s = Some (the (run [Send ''a''] ?s))"
    by (simp add: boot_def NewLog_def Write_def Buffer_Write_def)
  have l: "length (ch (sink ?s)) \<le> 1" by (simp add: boot_def NewLog_def)
  have c: "[1::int] \<noteq> []" "length ([]::int list) \<le> 1" by simp_all
  from trigger_coalesces[of "[Send ''a'']" ?s "the (run [Send ''a''] ?s)" "[1]" 3] r l c
  have 1: "(nofityDelFile ^^ 3) [1] = [1]"
    and 2: "length (ch (sink (the (run [Send ''a''] ?s)))) \<le> 1" by blast+
  from trigger_coalesces[of "[]" ?s ?s "[]" 0] c
  have 3: "length (nofityDelFile []) = 1" by blast
  from 1 2 3 4 show ?thesis by blast
qed

text \<open>
  C2, as amended. The handling of an event ends with the pump blocked on the timer
  exactly when the buffer is longer than \<open>maxCacheSize\<close>; receiving a buffer writes
  nothing to the disk. While the pump is blocked it receives no buffer, and no event
  but a tick changes its state. On the next tick it calls \<open>writeFile\<close> on the buffer,
  resets the buffer and returns to the \<^verbatim>\<open>select\<close>. The counterexample below is the
  claim as stated: after a buffer of 1 MiB + 1 bytes is received the buffer exceeds
  \<open>maxCacheSize\<close>, nothing has been written, and the pump waits for a tick.
\<close>

theorem size_check_waits_for_tick:
  "(step Recv s = Some s' \<longrightarrow>
      disk s' = disk s
    \<and> (pc (loop s') = AwaitTick \<longleftrightarrow> int (length (data (loop s'))) > maxCacheSize (loop s')))
   \<and> (pc (loop s) = AtSelect \<and> step (Tick e) s = Some s' \<longrightarrow>
      (pc (loop s') = AwaitTick \<longleftrightarrow> int (length (data (loop s'))) > maxCacheSize (loop s')))
   \<and> (pc (loop s) = AwaitTick \<longrightarrow>
        step Recv s = None
      \<and> ((\<forall>e. ev \<noteq> Tick e) \<and> step ev s = Some s' \<longrightarrow> loop s' = loop s)
      \<and> (\<exists>s1. step (Tick e) s = Some s1
            \<and> (sink s1, disk s1) = writeFile (sink s) e (data (loop s)) (disk s)
            \<and> data (loop s1) = [] \<and> pc (loop s1) = AtSelect))"
proof -
  have a: "disk s' = disk s
    \<and> (pc (loop s') = AwaitTick \<longleftrightarrow> int (length (data (loop s'))) > maxCacheSize (loop s'))"
    if "step Recv s = Some s'"
    using that by (auto simp: serveLog_recv_def size_check_def split: if_splits list.splits)
  have b: "pc (loop s') = AwaitTick \<longleftrightarrow> int (length (data (loop s'))) > maxCacheSize (loop s')"
    if "pc (loop s) = AtSelect" "step (Tick e) s = Some s'"
    using that
    by (cases "writeFile (sink s) e (data (loop s)) (disk s)")
       (auto simp: serveLog_tick_def size_check_def split: if_splits)
  have c: "step Recv s = None
      \<and> ((\<forall>e. ev \<noteq> Tick e) \<and> step ev s = Some s' \<longrightarrow> loop s' = loop s)
      \<and> (\<exists>s1. step (Tick e) s = Some s1
            \<and> (sink s1, disk s1) = writeFile (sink s) e (data (loop s)) (disk s)
            \<and> data (loop s1) = [] \<and> pc (loop s1) = AtSelect)"
    if w: "pc (loop s) = AwaitTick"
  proof -
    have 1: "step Recv s = None" using w by simp
    have 2: "(\<forall>e. ev \<noteq> Tick e) \<and> step ev s = Some s' \<longrightarrow> loop s' = loop s"
      using step_not_tick_loop[of ev s s'] w by blast
    have 3: "\<exists>s1. step (Tick e) s = Some s1
            \<and> (sink s1, disk s1) = writeFile (sink s) e (data (loop s)) (disk s)
            \<and> data (loop s1) = [] \<and> pc (loop s1) = AtSelect"
      using w by (cases "writeFile (sink s) e (data (loop s)) (disk s)")
        (simp add: serveLog_flush_def)
    from 1 2 3 show ?thesis by blast
  qed
  from a b c show ?thesis by blast
qed

theorem size_check_waits_for_tick_witness:
  "step Recv (the (run [Send (replicate 1048577 (CHR ''a'')), Recv]
                    (boot 10 \<lparr>dir = [], subdirs = [], appended = []\<rparr>))) = None
   \<and> (\<exists>s1. step (Tick \<lparr>open_try = True, rename_ok = (\<lambda>i. True), open_must = True,
                          now = ''20240101120000''\<rparr>)
               (the (run [Send (replicate 1048577 (CHR ''a'')), Recv]
                      (boot 10 \<lparr>dir = [], subdirs = [], appended = []\<rparr>))) = Some s1
            \<and> data (loop s1) = [] \<and> pc (loop s1) = AtSelect)
   \<and> pc (loop (the (run [Send ''ab'', Recv] (boot 10 \<lparr>dir = [], subdirs = [], appended = []\<rparr>)))) = AtSelect
   \<and> pc (loop (the (step (Tick \<lparr>open_try = True, rename_ok = (\<lambda>i. True), open_must = True,
                                  now = ''20240101120000''\<rparr>)
                      (the (run [Send ''ab'', Recv] (boot 10 \<lparr>dir = [], subdirs = [], appended = []\<rparr>))))))
       = AtSelect"
proof -
  let ?init = "boot 10 \<lparr>dir = [], subdirs = [], appended = []\<rparr>"
  let ?s = "the (run [Send (replicate 1048577 (CHR ''a'')), Recv] ?init)"
  let ?q = "the (run [Send ''ab''] ?init)"
  let ?q' = "the (run [Send ''ab'', Recv] ?init)"
  let ?e = "\<lparr>open_try = True, rename_ok = (\<lambda>i. True), open_must = True,
             now = ''20240101120000''\<rparr>"
  note defs = boot_def NewLog_def CalcMaxCacheSize_def Write_def Buffer_Write_def
        serveLog_recv_def size_check_def Let_def
  have w: "pc (loop ?s) = AwaitTick" by (simp add: defs)
  from size_check_waits_for_tick[of ?s _ ?e] w
  have 1: "step Recv ?s = None"
    and 2: "\<exists>s1. step (Tick ?e) ?s = Some s1 \<and> data (loop s1) = [] \<and> pc (loop s1) = AtSelect"
    by blast+
  have st: "step Recv ?q = Some ?q'" by (simp add: defs)
  have small: "\<not> int (length (data (loop ?q'))) > maxCacheSize (loop ?q')" by (simp add: defs)
  from size_check_waits_for_tick[of ?q ?q' ?e] st small
  have "pc (loop ?q') \<noteq> AwaitTick" by blast
  then have 3: "pc (loop ?q') = AtSelect" by (cases "pc (loop ?q')") simp_all
  let ?q'' = "the (step (Tick ?e) ?q')"
  have st2: "step (Tick ?e) ?q' = Some ?q''" by simp
  have small2: "\<not> int (length (data (loop ?q''))) > maxCacheSize (loop ?q'')"
    using 3
    by (simp add: defs serveLog_tick_def writeFile_def tryWrite_def os_OpenFile_def
        read_file_def Stat_Size_def int64_add_def io_Copy_def)
  from size_check_waits_for_tick[of ?q' ?q'' ?e] 3 st2 small2
  have "pc (loop ?q'') \<noteq> AwaitTick" by blast
  then have 4: "pc (loop ?q'') = AtSelect" by (cases "pc (loop ?q'')") simp_all
  from 1 2 3 4 show ?thesis by blast
qed

theorem size_check_flushes_at_once_counterexample:
  "(case run [Send (replicate 1048577 (CHR ''a'')), Recv] (boot 10 \<lparr>dir = [], subdirs = [], appended = []\<rparr>) of
      None \<Rightarrow> False
    | Some s \<Rightarrow>
        int (length (data (loop s))) = 1048577 \<and> maxCacheSize (loop s) = 1048576
      \<and> disk s = \<lparr>dir = [], subdirs = [], appended = []\<rparr>
      \<and> pc (loop s) = AwaitTick
      \<and> step Recv s = None)"
  by (simp add: boot_def NewLog_def CalcMaxCacheSize_def Write_def Buffer_Write_def
      serveLog_recv_def size_check_def Let_def)

section \<open>The order of the flushed bytes\<close>

lemma appended_open: "os_OpenFile ok name fs = Some fs1 \<Longrightarrow> appended fs1 = appended fs"
  by (auto simp: os_OpenFile_def split: if_splits option.splits)

lemma appended_tryWrite:
  "open_try e \<Longrightarrow>
     appended (snd (tryWrite t e d fs)) =
       (if fst (tryWrite t e d fs) then appended fs @ d else appended fs)"
proof -
  assume op: "open_try e"
  obtain fs1 where o: "os_OpenFile (open_try e) (FileName t) fs = Some fs1"
    using op os_OpenFile_True by auto
  show ?thesis
    using appended_open[OF o] by (simp add: tryWrite_def o Let_def appended_Copy)
qed

lemma appended_writeFile:
  assumes "open_try e" and "open_must e"
  shows "appended (snd (writeFile t e d fs)) = appended fs @ d"
proof (cases "fst (tryWrite t e d fs)")
  case True
  then show ?thesis
    using appended_tryWrite[OF assms(1), of t d fs] by (simp add: writeFile_accepted)
next
  case False
  then have ref: "fst (tryWrite t e d fs) = False" by simp
  show ?thesis
    using appended_tryWrite[OF assms(1), of t d fs] False
      mustWrite_open[OF assms(2), of _ t d "rename t e (snd (tryWrite t e d fs))"]
    by (simp add: writeFile_refused[OF ref] appended_rename)
qed

lemma appended_remove_loop: "appended (remove_loop is flist fs) = appended fs"
  by (induction "is" arbitrary: fs) (simp_all add: os_Remove_def)

lemma appended_cleanFile: "appended (cleanFile compile t fs) = appended fs"
  by (simp add: cleanFile_def appended_remove_loop split: option.splits)

lemma step_stream:
  assumes st: "step ev s = Some s'" and ok: "opens_ok [ev]"
  shows "appended (disk s') @ data (loop s') @ concat (Pipe (sink s')) =
         appended (disk s) @ data (loop s) @ concat (Pipe (sink s)) @ concat (sent [ev])"
proof (cases ev)
  case (Send p)
  then show ?thesis using st
    by (auto simp: Write_def Buffer_Write_def split: if_splits)
next
  case Recv
  then show ?thesis using st
    by (auto simp: serveLog_recv_def size_check_def split: if_splits list.splits)
next
  case (Tick e)
  with ok have op: "open_try e" and om: "open_must e" by simp_all
  obtain t' fs' where w: "writeFile (sink s) e (data (loop s)) (disk s) = (t', fs')"
    by (cases "writeFile (sink s) e (data (loop s)) (disk s)")
  have a: "appended fs' = appended (disk s) @ data (loop s)"
    using appended_writeFile[OF op om, of "sink s" "data (loop s)" "disk s"] w by simp
  have p: "Pipe t' = Pipe (sink s)"
    using writeFile_Pipe[of "sink s" e "data (loop s)" "disk s"] w by simp
  show ?thesis
  proof (cases "pc (loop s)")
    case AtSelect
    then show ?thesis using st Tick w a p
      by (auto simp: serveLog_tick_def size_check_def)
  next
    case AwaitTick
    then show ?thesis using st Tick w a p
      by (auto simp: serveLog_flush_def)
  qed
next
  case (Wake compile)
  then show ?thesis using st
    by (auto simp: appended_cleanFile split: list.splits)
next
  case (SetSize n)
  then show ?thesis using st by (auto simp: SetMaxFileSize_def)
next
  case (SetCount n)
  then show ?thesis using st by (auto simp: SetMaxFileCount_def)
qed

lemma opens_ok_Cons: "opens_ok (ev # evs) = (opens_ok [ev] \<and> opens_ok evs)"
  by (cases ev) simp_all

lemma sent_Cons: "sent (ev # evs) = sent [ev] @ sent evs"
  by (cases ev) simp_all

lemma run_stream:
  "run evs s = Some s' \<Longrightarrow> opens_ok evs \<Longrightarrow>
     appended (disk s') @ data (loop s') @ concat (Pipe (sink s')) =
     appended (disk s) @ data (loop s) @ concat (Pipe (sink s)) @ concat (sent evs)"
proof (induction evs arbitrary: s)
  case Nil
  then show ?case by simp
next
  case (Cons ev evs)
  then obtain s1 where s1: "step ev s = Some s1" and r: "run evs s1 = Some s'"
    by (auto split: option.splits)
  from Cons.prems(2) have o1: "opens_ok [ev]" and o2: "opens_ok evs"
    using opens_ok_Cons[of ev evs] by simp_all
  have A: "appended (disk s') @ data (loop s') @ concat (Pipe (sink s')) =
        (appended (disk s1) @ data (loop s1) @ concat (Pipe (sink s1))) @ concat (sent evs)"
    using Cons.IH[OF r o2] by simp
  have B: "appended (disk s1) @ data (loop s1) @ concat (Pipe (sink s1)) =
        appended (disk s) @ data (loop s) @ concat (Pipe (sink s)) @ concat (sent [ev])"
    by (rule step_stream[OF s1 o1])
  show ?case unfolding A B sent_Cons[of ev evs] by simp
qed

text \<open>
  C1. Along every run of events in which no open fails, the bytes appended to the
  active file, followed by the pump's buffer and by the buffers still in the channel,
  are what they were at the start followed by the payloads of the \<open>Write\<close> calls in
  the order they entered the channel. So between two states with an empty buffer and
  an empty channel, the bytes appended are exactly the concatenation of those
  payloads, in that order.
\<close>

theorem flush_order_fifo:
  assumes "run evs s = Some s'" and "opens_ok evs"
  shows "appended (disk s') @ data (loop s') @ concat (Pipe (sink s')) =
           appended (disk s) @ data (loop s) @ concat (Pipe (sink s)) @ concat (sent evs)
       \<and> (data (loop s) = [] \<and> Pipe (sink s) = [] \<and> data (loop s') = [] \<and> Pipe (sink s') = []
            \<longrightarrow> appended (disk s') = appended (disk s) @ concat (sent evs))"
  using run_stream[OF assms] by auto

theorem flush_order_fifo_witness:
  "appended (disk (the (run [Send ''ab'', Send ''cd'', Recv, Send ''ef'', Recv, Recv,
        Tick \<lparr>open_try = True, rename_ok = (\<lambda>i. True), open_must = True,
              now = ''20240101120000''\<rparr>] (boot 10 \<lparr>dir = [], subdirs = [], appended = []\<rparr>)))) = ''abcdef''"
proof -
  let ?e = "\<lparr>open_try = True, rename_ok = (\<lambda>i. True), open_must = True,
             now = ''20240101120000''\<rparr>"
  let ?evs = "[Send ''ab'', Send ''cd'', Recv, Send ''ef'', Recv, Recv, Tick ?e]"
  let ?init = "boot 10 \<lparr>dir = [], subdirs = [], appended = []\<rparr>"
  have r: "run ?evs ?init = Some (the (run ?evs ?init))"
    by (simp add: boot_def NewLog_def CalcMaxCacheSize_def Write_def Buffer_Write_def
        serveLog_recv_def size_check_def serveLog_tick_def writeFile_def tryWrite_def
        os_OpenFile_def read_file_def Stat_Size_def int64_add_def io_Copy_def Let_def)
  have o: "opens_ok ?evs" by simp
  have e0: "data (loop ?init) = [] \<and> Pipe (sink ?init) = []"
    by (simp add: boot_def NewLog_def)
  have e1: "data (loop (the (run ?evs ?init))) = [] \<and> Pipe (sink (the (run ?evs ?init))) = []"
    by (simp add: boot_def NewLog_def CalcMaxCacheSize_def Write_def Buffer_Write_def
        serveLog_recv_def size_check_def serveLog_tick_def writeFile_def tryWrite_def
        os_OpenFile_def read_file_def Stat_Size_def int64_add_def io_Copy_def Let_def)
  from flush_order_fifo[OF r o] e0 e1
  have "appended (disk (the (run ?evs ?init))) = appended (disk ?init) @ concat (sent ?evs)"
    by blast
  then show ?thesis by (simp add: boot_def)
qed

section \<open>Properties of the retention sweeper\<close>










lemma read_file_Remove:
  "read_file n (os_Remove x fs) = (if n = x then None else read_file n fs)"
  by (simp add: os_Remove_def read_file_def delete_conv')



lemma read_file_remove_loop_cases:
  "read_file n (remove_loop is l fs) = None
   \<or> read_file n (remove_loop is l fs) = read_file n fs"
proof (induction "is" arbitrary: fs)
  case Nil
  then show ?case by simp
next
  case (Cons i "is")
  show ?case
    using Cons.IH[of "os_Remove (l ! i) fs"] by (auto simp: read_file_Remove)
qed







lemma read_file_cleanFile_cases:
  "read_file n (cleanFile compile t fs) = None
   \<or> read_file n (cleanFile compile t fs) = read_file n fs"
  using read_file_remove_loop_cases
  by (auto simp: cleanFile_def split: option.splits)




text \<open>
  C9. The library compiles \<^verbatim>\<open>log.txt\.\d{14}\<close> as Go does: the expression is
  searched for anywhere in a name and the dot of the file name is a wildcard. So the
  walk also collects names that merely contain a rotated name. With
  \<open>FileName = log.txt\<close> and \<open>MaxFileCount = 1\<close> the sweep deletes a backup copy
  \<open>log.txt.20240101120000.bak\<close> and the file \<open>mylog.txt.20240101120000\<close> of another
  program, neither of which \<open>rename\<close> can have produced.
\<close>

theorem sweep_deletes_other_files:
  "cleanFile (\<lambda>x. if x = ''log.txt'' @ [CHR 0x5C] @ ''.'' @ [CHR 0x5C] @ ''d{14}''
                    then Some (MatchString log_txt_expression) else None)
     ((NewLog 10)\<lparr>SaveDir := ''logs'', MaxFileCount := 1\<rparr>)
     \<lparr>dir = [(''log.txt'', ''new''), (''log.txt.20240101120000.bak'', ''kept by hand''),
             (''mylog.txt.20240101120000'', ''of another program'')],
       subdirs = [], appended = []\<rparr>
   = \<lparr>dir = [(''log.txt'', ''new'')], subdirs = [], appended = []\<rparr>"
  by code_simp

section \<open>The size of the active file\<close>

lemma Stat_Size_nonneg: "0 \<le> Stat_Size name fs"
  by (simp add: Stat_Size_def split: option.splits)

lemma Stat_Size_cleanFile:
  "Stat_Size name (cleanFile compile t fs) = 0
   \<or> Stat_Size name (cleanFile compile t fs) = Stat_Size name fs"
  using read_file_cleanFile_cases[of name compile t fs] by (auto simp: Stat_Size_def)

lemma step_keeps_cap:
  assumes st: "step ev s = Some s'"
      and nt: "\<forall>e. ev \<noteq> Tick e"
      and up: "MaxFileSize (sink s) \<le> MaxFileSize (sink s')"
      and le: "Stat_Size (FileName (sink s)) (disk s) \<le> MaxFileSize (sink s)"
  shows "Stat_Size (FileName (sink s')) (disk s') \<le> MaxFileSize (sink s')"
proof (cases ev)
  case (Send p)
  then show ?thesis using st le
    by (auto simp: Write_def Buffer_Write_def split: if_splits)
next
  case Recv
  then show ?thesis using st le
    by (auto simp: serveLog_recv_def split: if_splits list.splits)
next
  case (Tick e)
  then show ?thesis using nt by simp
next
  case (Wake compile)
  then obtain x rest where c: "ch (sink s) = x # rest"
    and s': "s' = s\<lparr>sink := (sink s)\<lparr>ch := rest\<rparr>,
                   disk := cleanFile compile (sink s) (disk s)\<rparr>"
    using st by (auto split: list.splits)
  have "0 \<le> MaxFileSize (sink s)"
    using le Stat_Size_nonneg[of "FileName (sink s)" "disk s"] by simp
  then show ?thesis
    using Stat_Size_cleanFile[of "FileName (sink s)" compile "sink s" "disk s"] le
    by (auto simp: s')
next
  case (SetSize n)
  then show ?thesis using st le up by (auto simp: SetMaxFileSize_def split: if_splits)
next
  case (SetCount n)
  then show ?thesis using st le by (auto simp: SetMaxFileCount_def)
qed

lemma writeFile_cap_after:
  assumes le: "Stat_Size (FileName t) fs \<le> MaxFileSize t"
      and d: "int (length d) \<le> MaxFileSize t"
      and rn: "rename_ok e 0 \<or> rename_ok e 1"
      and rng: "Stat_Size (FileName t) fs + int (length d) < 2 ^ 63"
  shows "Stat_Size (FileName t) (snd (writeFile t e d fs)) \<le> MaxFileSize t"
proof (cases "open_try e")
  case False
  then show ?thesis using le by (simp add: writeFile_open_fails)
next
  case True
  define c where "c = (case read_file (FileName t) fs of None \<Rightarrow> [] | Some x \<Rightarrow> x)"
  have sz: "Stat_Size (FileName t) fs = int (length c)"
    by (simp add: Stat_Size_def c_def split: option.splits)
  have rng': "int (length c) + int (length d) < 2 ^ 63" using rng sz by simp
  obtain fs1 where o: "os_OpenFile True (FileName t) fs = Some fs1"
    and tw: "tryWrite t e d fs =
      (if int (length c) + int (length d) > MaxFileSize t then (False, fs1)
       else (True, io_Copy (FileName t) d fs1))"
    using tryWrite_opened[OF True c_def rng'] by blast
  have r1: "read_file (FileName t) fs1 = Some c"
    using read_file_open[OF o, of "FileName t"] c_def by simp
  show ?thesis
  proof (cases "int (length c) + int (length d) > MaxFileSize t")
    case False
    then have "writeFile t e d fs = (t, io_Copy (FileName t) d fs1)"
      by (simp add: writeFile_def tw)
    then show ?thesis using False r1 by (simp add: Stat_Size_def read_file_Copy)
  next
    case big: True
    then have ref: "fst (tryWrite t e d fs) = False" and s1: "snd (tryWrite t e d fs) = fs1"
      by (simp_all add: tw)
    have w: "writeFile t e d fs =
        (t\<lparr>ch := nofityDelFile (ch t)\<rparr>, mustWrite t e d (rename t e fs1))"
      using writeFile_refused[OF ref] s1 by simp
    have gone: "read_file (FileName t) (rename t e fs1) = None"
      using rename_succeeds[OF rn r1, of "FileName t"] newname_neq[of t e] by simp
    show ?thesis
    proof (cases "open_must e")
      case True
      then show ?thesis
        using mustWrite_open[OF True, of "FileName t" t d "rename t e fs1"] gone d
        by (simp add: w Stat_Size_def)
    next
      case False
      then have "mustWrite t e d (rename t e fs1) = rename t e fs1"
        by (simp add: mustWrite_def os_OpenFile_def)
      then show ?thesis using gone d by (simp add: w Stat_Size_def)
    qed
  qed
qed

lemma FileName_writeFile: "FileName (fst (writeFile t e d fs)) = FileName t"
  using writeFile_sink[of t e d fs] by auto

text \<open>
  C6, as amended. Consider a call of \<open>writeFile\<close>. If the active file's size is at most
  \<open>MaxFileSize\<close> before the call, the payload is at most \<open>MaxFileSize\<close> bytes long,
  the two sizes add up to less than \<open>2 ^ 63\<close>, and one of the two rename attempts is
  permitted, then right after the call the active file's size is at most
  \<open>MaxFileSize\<close>. Until the next call the bound is kept by every step that is not a
  tick, provided the step does not lower \<open>MaxFileSize\<close>: a \<open>Write\<close>, a receive of the
  pump, a sweep, a setter. And when the bound holds, the size that the next append
  reads after its open is at most \<open>MaxFileSize\<close>. The counterexample below is the
  claim as stated: a payload one byte longer than \<open>MaxFileSize\<close> is written whole to
  the fresh file, and the next append finds the active file over the cap.
\<close>

theorem writeFile_keeps_cap:
  "(Stat_Size (FileName t) fs \<le> MaxFileSize t
      \<and> int (length d) \<le> MaxFileSize t
      \<and> (rename_ok e 0 \<or> rename_ok e 1)
      \<and> Stat_Size (FileName t) fs + int (length d) < 2 ^ 63 \<longrightarrow>
        Stat_Size (FileName (fst (writeFile t e d fs))) (snd (writeFile t e d fs))
          \<le> MaxFileSize (fst (writeFile t e d fs)))
   \<and> (step ev s = Some s' \<and> (\<forall>e'. ev \<noteq> Tick e')
      \<and> MaxFileSize (sink s) \<le> MaxFileSize (sink s')
      \<and> Stat_Size (FileName (sink s)) (disk s) \<le> MaxFileSize (sink s) \<longrightarrow>
        Stat_Size (FileName (sink s')) (disk s') \<le> MaxFileSize (sink s'))
   \<and> (Stat_Size (FileName t') fs' \<le> MaxFileSize t'
      \<and> os_OpenFile True (FileName t') fs' = Some fs1 \<longrightarrow>
        Stat_Size (FileName t') fs1 \<le> MaxFileSize t')"
proof -
  have a: "Stat_Size (FileName (fst (writeFile t e d fs))) (snd (writeFile t e d fs))
          \<le> MaxFileSize (fst (writeFile t e d fs))"
    if "Stat_Size (FileName t) fs \<le> MaxFileSize t" "int (length d) \<le> MaxFileSize t"
      "rename_ok e 0 \<or> rename_ok e 1" "Stat_Size (FileName t) fs + int (length d) < 2 ^ 63"
    using writeFile_cap_after[OF that] by (simp add: MaxFileSize_writeFile FileName_writeFile)
  have b: "Stat_Size (FileName (sink s')) (disk s') \<le> MaxFileSize (sink s')"
    if "step ev s = Some s'" "\<forall>e'. ev \<noteq> Tick e'"
      "MaxFileSize (sink s) \<le> MaxFileSize (sink s')"
      "Stat_Size (FileName (sink s)) (disk s) \<le> MaxFileSize (sink s)"
    using step_keeps_cap[OF that] .
  have c: "Stat_Size (FileName t') fs1 \<le> MaxFileSize t'"
    if "Stat_Size (FileName t') fs' \<le> MaxFileSize t'"
      "os_OpenFile True (FileName t') fs' = Some fs1"
    using Stat_Size_open[OF that(2)] that(1) by simp
  from a b c show ?thesis by blast
qed

theorem writeFile_keeps_cap_witness:
  "read_file ''log.txt.20240101120000'' (snd (writeFile (NewLog 10)
     \<lparr>open_try = True, rename_ok = (\<lambda>i. i = 1), open_must = True, now = ''20240101120000''\<rparr>
     (replicate 2000000 (CHR ''b''))
     \<lparr>dir = [(''log.txt'', replicate 3000000 (CHR ''a''))], subdirs = [], appended = []\<rparr>))
     = Some (replicate 3000000 (CHR ''a''))
   \<and> Stat_Size ''log.txt'' (snd (writeFile (NewLog 10)
     \<lparr>open_try = True, rename_ok = (\<lambda>i. i = 1), open_must = True, now = ''20240101120000''\<rparr>
     (replicate 2000000 (CHR ''b''))
     \<lparr>dir = [(''log.txt'', replicate 3000000 (CHR ''a''))], subdirs = [], appended = []\<rparr>))
     \<le> 4194304
   \<and> Stat_Size ''log.txt''
       (disk (the (step (SetSize 8388608)
          \<lparr>sink = NewLog 10,
            loop = \<lparr>data = [], maxCacheSize = 1048576, pc = AtSelect\<rparr>,
            disk = \<lparr>dir = [(''log.txt'', replicate 3000000 (CHR ''a''))], subdirs = [],
                     appended = []\<rparr>\<rparr>))) \<le> 8388608
   \<and> (\<exists>fs1. os_OpenFile True ''log.txt''
              \<lparr>dir = [(''log.txt'', replicate 3000000 (CHR ''a''))], subdirs = [],
                appended = []\<rparr> = Some fs1
            \<and> Stat_Size ''log.txt'' fs1 \<le> 4194304)"
proof -
  let ?e = "\<lparr>open_try = True, rename_ok = (\<lambda>i. i = 1), open_must = True,
             now = ''20240101120000''\<rparr>"
  let ?fs = "\<lparr>dir = [(''log.txt'', replicate 3000000 (CHR ''a''))], subdirs = [],
              appended = []\<rparr>"
  let ?d = "replicate 2000000 (CHR ''b'')"
  let ?s = "\<lparr>sink = NewLog 10,
            loop = \<lparr>data = [], maxCacheSize = 1048576, pc = AtSelect\<rparr>, disk = ?fs\<rparr>"
  have n: "FileName (NewLog 10) = ''log.txt''" "MaxFileSize (NewLog 10) = 4194304"
    by (simp_all add: NewLog_def)
  have sz: "Stat_Size ''log.txt'' ?fs = 3000000"
    by (simp add: Stat_Size_def read_file_def)
  have h: "Stat_Size (FileName (NewLog 10)) ?fs \<le> MaxFileSize (NewLog 10)
      \<and> int (length ?d) \<le> MaxFileSize (NewLog 10)
      \<and> (rename_ok ?e 0 \<or> rename_ok ?e 1)
      \<and> Stat_Size (FileName (NewLog 10)) ?fs + int (length ?d) < 2 ^ 63"
    by (simp add: n sz)
  from writeFile_keeps_cap[of "NewLog 10" ?fs ?d ?e] h
  have "Stat_Size (FileName (fst (writeFile (NewLog 10) ?e ?d ?fs)))
          (snd (writeFile (NewLog 10) ?e ?d ?fs))
        \<le> MaxFileSize (fst (writeFile (NewLog 10) ?e ?d ?fs))"
    by blast
  then have A: "Stat_Size ''log.txt'' (snd (writeFile (NewLog 10) ?e ?d ?fs)) \<le> 4194304"
    by (simp add: n MaxFileSize_writeFile FileName_writeFile)
  have R: "read_file ''log.txt.20240101120000'' (snd (writeFile (NewLog 10) ?e ?d ?fs))
      = Some (replicate 3000000 (CHR ''a''))"
    by (simp add: NewLog_def writeFile_def tryWrite_def os_OpenFile_def read_file_def
        Stat_Size_def int64_add_def rename_unfold newname_def os_Rename_def mustWrite_def
        io_Copy_def nofityDelFile_def Let_def)
  let ?s' = "the (step (SetSize 8388608) ?s)"
  have st: "step (SetSize 8388608) ?s = Some ?s'" by simp
  have hs: "(\<forall>e'. SetSize 8388608 \<noteq> Tick e')
      \<and> MaxFileSize (sink ?s) \<le> MaxFileSize (sink ?s')
      \<and> Stat_Size (FileName (sink ?s)) (disk ?s) \<le> MaxFileSize (sink ?s)"
    by (simp add: n sz SetMaxFileSize_def)
  from writeFile_keeps_cap[of _ _ _ _ "SetSize 8388608" ?s ?s'] st hs
  have "Stat_Size (FileName (sink ?s')) (disk ?s') \<le> MaxFileSize (sink ?s')" by blast
  then have B: "Stat_Size ''log.txt'' (disk ?s') \<le> 8388608"
    by (simp add: n SetMaxFileSize_def)
  obtain fs1 where o: "os_OpenFile True ''log.txt'' ?fs = Some fs1"
    using os_OpenFile_True by blast
  have h3: "Stat_Size (FileName (NewLog 10)) ?fs \<le> MaxFileSize (NewLog 10)
      \<and> os_OpenFile True (FileName (NewLog 10)) ?fs = Some fs1"
    using o by (simp add: n sz)
  from writeFile_keeps_cap[of _ _ _ _ _ _ _ "NewLog 10" ?fs fs1] h3
  have "Stat_Size (FileName (NewLog 10)) fs1 \<le> MaxFileSize (NewLog 10)" by blast
  with o have C: "\<exists>fs1. os_OpenFile True ''log.txt'' ?fs = Some fs1
      \<and> Stat_Size ''log.txt'' fs1 \<le> 4194304"
    by (auto simp: n)
  from R A B C show ?thesis by blast
qed

theorem active_file_over_cap_counterexample:
  "(case run [Send (replicate 4194305 (CHR ''a'')), Recv,
              Tick \<lparr>open_try = True, rename_ok = (\<lambda>i. True), open_must = True,
                    now = ''20240101120000''\<rparr>]
          (boot 10 \<lparr>dir = [], subdirs = [], appended = []\<rparr>) of
      None \<Rightarrow> False
    | Some s \<Rightarrow>
        (case os_OpenFile True (FileName (sink s)) (disk s) of
           None \<Rightarrow> False
         | Some fs1 \<Rightarrow> Stat_Size (FileName (sink s)) fs1 = 4194305
                      \<and> MaxFileSize (sink s) = 4194304))"
  by (simp add: boot_def NewLog_def CalcMaxCacheSize_def Write_def Buffer_Write_def
      serveLog_recv_def size_check_def serveLog_flush_def writeFile_def tryWrite_def
      os_OpenFile_def read_file_def Stat_Size_def int64_add_def rename_unfold newname_def
      os_Rename_def mustWrite_def io_Copy_def nofityDelFile_def Let_def)

end
